theory Spec2Isabelle
  imports Complex_Main "HOL-Library.AList" "HOL-Library.Sublist" "HOL-Library.Log_Nat"
begin

section \<open>The tunnrl client: data model\<close>

text \<open>
  The development embeds the two TypeScript modules of the client: the library entry
  point (function \<open>tunnrl\<close> with its own \<open>forwardToLocal\<close>) and the command line
  client (function \<open>startTunnel\<close> with a second copy of \<open>forwardToLocal\<close>).
  Names of the library module carry the prefix \<open>api_\<close>, names of the command line
  module the prefix \<open>cli_\<close>, where both modules declare the same name.

  JavaScript strings are modelled as \<open>string\<close>, a \<open>Buffer\<close> as a list of characters
  read as bytes, and a JavaScript object as the list of its entries, with distinct keys,
  in the order \<open>Object.entries\<close> gives them; a key that is assigned later and is not
  integer-like goes to the end. A port and a length are natural numbers and a status code
  is an integer; the reconnect delay, which is added to \<open>Math.random() * 500\<close>, is a
  real number that is a double. Callbacks
  registered on Node objects become functions from the event to the new state and the
  effects performed.
\<close>

subsection \<open>Strings\<close>

definition startsWith :: "string \<Rightarrow> string \<Rightarrow> bool" where
  \<comment> \<open>\<open>s.startsWith(p)\<close>\<close>
  "startsWith s p = (take (length p) s = p)"

definition digit_char :: "nat \<Rightarrow> char" where
  "digit_char d = char_of (48 + d)"

fun show_nat :: "nat \<Rightarrow> string" where
  \<comment> \<open>The decimal digits of a number, as a template literal prints an integer below
      \<open>10 ^ 21\<close>.\<close>
  "show_nat n = (if n < 10 then [digit_char n] else show_nat (n div 10) @ [digit_char (n mod 10)])"

declare show_nat.simps [simp del]

definition show_int :: "int \<Rightarrow> string" where
  "show_int i = (if i < 0 then CHR ''-'' # show_nat (nat (- i)) else show_nat (nat i))"

subsection \<open>Numbers\<close>

text \<open>
  A JavaScript number is an IEEE 754 double. \<open>to_double\<close> is the rounding every
  arithmetic operation applies to its exact result: to the nearest double, ties to the
  one with an even significand. A value is taken in units of \<open>2 powr -1074\<close>, the
  smallest positive double; a double has at most 53 significant bits, so a value of more
  bits is rounded at the bit that leaves 53. Results beyond the largest double are not
  modelled; no number of the client comes near it.
\<close>

definition round_half_even :: "real \<Rightarrow> int" where
  "round_half_even x =
     (let f = \<lfloor>x\<rfloor>; d = x - of_int f
      in if d < 1/2 then f else if 1/2 < d then f + 1 else if even f then f else f + 1)"

definition double_precision :: nat where
  "double_precision = 53"

definition double_scale :: nat where
  "double_scale = 1074"

definition double_shift :: "real \<Rightarrow> nat" where
  \<comment> \<open>The number of low bits a scaled value loses.\<close>
  "double_shift X = nat (bitlen \<lfloor>X\<rfloor> - int double_precision)"

definition round_scaled :: "real \<Rightarrow> real" where
  "round_scaled X = of_int (round_half_even (X / 2 ^ double_shift X)) * 2 ^ double_shift X"

definition to_double :: "real \<Rightarrow> real" where
  "to_double x =
     (if x < 0 then - (round_scaled (- x * 2 ^ double_scale) / 2 ^ double_scale)
      else round_scaled (x * 2 ^ double_scale) / 2 ^ double_scale)"

subsection \<open>JSON values\<close>

text \<open>
  The result of \<open>JSON.parse\<close>. Numbers are restricted to integers: no handler reads
  a number of a frame. \<open>get_prop\<close> reads a property of a value that is not \<open>null\<close>
  (\<open>undefined\<close> is \<open>None\<close>); \<open>js_String\<close> is the conversion a template literal
  applies.
\<close>

datatype json = JNull | JBool bool | JNum int | JStr string
  | JArr "json list" | JObj "(string \<times> json) list"

fun join_commas :: "string list \<Rightarrow> string" where
  "join_commas [] = []"
| "join_commas [s] = s"
| "join_commas (s # t # ss) = s @ CHR '','' # join_commas (t # ss)"

fun json_String :: "json \<Rightarrow> string" where
  "json_String JNull = ''null''"
| "json_String (JBool b) = (if b then ''true'' else ''false'')"
| "json_String (JNum n) = show_int n"
| "json_String (JStr s) = s"
| "json_String (JArr xs) = join_commas (map (\<lambda>x. if x = JNull then [] else json_String x) xs)"
| "json_String (JObj kvs) = ''[object Object]''"

definition js_String :: "json option \<Rightarrow> string" where
  "js_String v = (case v of None \<Rightarrow> ''undefined'' | Some j \<Rightarrow> json_String j)"

fun get_prop :: "json \<Rightarrow> string \<Rightarrow> json option" where
  "get_prop (JObj kvs) key = map_of kvs key"
| "get_prop _ key = None"

definition hex_digit :: "nat \<Rightarrow> char" where
  "hex_digit d = (if d < 10 then char_of (48 + d) else char_of (87 + d))"

definition json_escape_char :: "char \<Rightarrow> string" where
  \<comment> \<open>The quoting \<open>JSON.stringify\<close> applies inside a string.\<close>
  "json_escape_char c =
     (let n = of_char c :: nat in
      if n = 34 then [CHR 0x5C, CHR 0x22]
      else if n = 92 then [CHR 0x5C, CHR 0x5C]
      else if n = 8 then [CHR 0x5C, CHR ''b'']
      else if n = 12 then [CHR 0x5C, CHR ''f'']
      else if n = 10 then [CHR 0x5C, CHR ''n'']
      else if n = 13 then [CHR 0x5C, CHR ''r'']
      else if n = 9 then [CHR 0x5C, CHR ''t'']
      else if n < 32 then [CHR 0x5C, CHR ''u'', CHR ''0'', CHR ''0'', hex_digit (n div 16), hex_digit (n mod 16)]
      else [c])"

definition JSON_quote :: "string \<Rightarrow> string" where
  "JSON_quote s = CHR 0x22 # concat (map json_escape_char s) @ [CHR 0x22]"

definition JSON_stringify_strings :: "(string \<times> string) list \<Rightarrow> string" where
  \<comment> \<open>\<open>JSON.stringify\<close> of an object literal whose values are strings.\<close>
  "JSON_stringify_strings kvs =
     CHR ''{'' # join_commas (map (\<lambda>(k, v). JSON_quote k @ CHR '':'' # JSON_quote v) kvs) @ [CHR ''}'']"

subsection \<open>Base64\<close>

text \<open>
  \<open>toString_base64\<close> is \<open>buf.toString('base64')\<close>. \<open>Buffer_from_base64\<close> is
  \<open>Buffer.from(s, 'base64')\<close>, which never fails: characters outside the alphabet are
  skipped and decoding ends at the first padding character.
\<close>

definition base64_alphabet :: string where
  "base64_alphabet = ''ABCDEFGHIJKLMNOPQRSTUVWXYZabcdefghijklmnopqrstuvwxyz0123456789+/''"

definition base64_char :: "nat \<Rightarrow> char" where
  "base64_char n = base64_alphabet ! (n mod 64)"

fun toString_base64 :: "char list \<Rightarrow> string" where
  "toString_base64 [] = []"
| "toString_base64 [a] =
     (let x = of_char a :: nat
      in [base64_char (x div 4), base64_char (x mod 4 * 16), CHR ''='', CHR ''=''])"
| "toString_base64 [a, b] =
     (let x = of_char a :: nat; y = of_char b :: nat
      in [base64_char (x div 4), base64_char (x mod 4 * 16 + y div 16),
          base64_char (y mod 16 * 4), CHR ''=''])"
| "toString_base64 (a # b # c # rest) =
     (let x = of_char a :: nat; y = of_char b :: nat; z = of_char c :: nat
      in [base64_char (x div 4), base64_char (x mod 4 * 16 + y div 16),
          base64_char (y mod 16 * 4 + z div 64), base64_char (z mod 64)]) @ toString_base64 rest"

definition unbase64 :: "char \<Rightarrow> nat option" where
  "unbase64 c =
     (let n = of_char c :: nat in
      if 65 \<le> n \<and> n \<le> 90 then Some (n - 65)
      else if 97 \<le> n \<and> n \<le> 122 then Some (n - 71)
      else if 48 \<le> n \<and> n \<le> 57 then Some (n + 4)
      else if n = 43 \<or> n = 45 then Some 62
      else if n = 47 \<or> n = 95 then Some 63
      else None)"

fun sextets_to_bytes :: "nat list \<Rightarrow> char list" where
  "sextets_to_bytes (a # b # c # d # rest) =
     [char_of (a * 4 + b div 16), char_of (b mod 16 * 16 + c div 4), char_of (c mod 4 * 64 + d)]
       @ sextets_to_bytes rest"
| "sextets_to_bytes [a, b, c] = [char_of (a * 4 + b div 16), char_of (b mod 16 * 16 + c div 4)]"
| "sextets_to_bytes [a, b] = [char_of (a * 4 + b div 16)]"
| "sextets_to_bytes _ = []"

definition Buffer_from_base64 :: "string \<Rightarrow> char list" where
  "Buffer_from_base64 s =
     sextets_to_bytes (List.map_filter unbase64 (takeWhile (\<lambda>c. c \<noteq> CHR ''='') s))"

subsection \<open>Messages\<close>

datatype header_value = HString string | HStrings "string list" | HNumber nat

type_synonym headers = "(string \<times> header_value) list"

record ForwardedRequest =
  req_requestId :: string
  req_method :: string
  req_path :: string
  req_headers :: headers
  req_body :: string

record ForwardedResponse =
  res_type :: string
  res_requestId :: string
  res_status :: int
  res_headers :: headers
  res_body :: string

record RequestInfo =
  info_method :: string
  info_path :: string
  info_status :: int
  info_duration :: int

subsection \<open>Promises\<close>

datatype 'a promise = Pending | Fulfilled 'a | Rejected string

definition resolve :: "'a \<Rightarrow> 'a promise \<Rightarrow> 'a promise" where
  \<comment> \<open>Only a pending promise is settled; later calls do nothing.\<close>
  "resolve v p = (case p of Pending \<Rightarrow> Fulfilled v | _ \<Rightarrow> p)"

definition reject :: "string \<Rightarrow> 'a promise \<Rightarrow> 'a promise" where
  "reject e p = (case p of Pending \<Rightarrow> Rejected e | _ \<Rightarrow> p)"

section \<open>The local HTTP forwarder\<close>

subsection \<open>Parts shared by both copies\<close>

definition makeErrorResponse :: "string \<Rightarrow> int \<Rightarrow> string \<Rightarrow> ForwardedResponse" where
  "makeErrorResponse requestId status message =
     \<lparr>res_type = ''response'', res_requestId = requestId, res_status = status,
      res_headers = [(''content-type'', HString ''application/json'')],
      res_body = toString_base64 (JSON_stringify_strings [(''error'', message)])\<rparr>"

definition hop_by_hop :: "string list" where
  "hop_by_hop = [''connection'', ''keep-alive'', ''transfer-encoding'', ''upgrade'',
     ''proxy-connection'', ''te'', ''trailers'']"

definition object_set :: "string \<Rightarrow> 'v \<Rightarrow> (string \<times> 'v) list \<Rightarrow> (string \<times> 'v) list" where
  \<comment> \<open>\<open>obj[key] = val\<close> on an object that started as \<open>{}\<close>. The key \<open>__proto__\<close> is
      the prototype accessor of \<open>Object.prototype\<close>: assigning to it adds no property.\<close>
  "object_set key val obj = (if key = ''__proto__'' then obj else AList.update key val obj)"

text \<open>
  \<open>String.prototype.toLowerCase\<close> follows the Unicode case table, which is no part of
  the repository: the function is a parameter of the definitions that call it.
\<close>

definition strip_headers :: "(string \<Rightarrow> string) \<Rightarrow> headers \<Rightarrow> headers" where
  \<comment> \<open>The loop over \<open>Object.entries(request.headers)\<close>, starting from \<open>{}\<close>.\<close>
  "strip_headers toLowerCase entries =
     fold (\<lambda>(key, val) headers.
             let lower = toLowerCase key
             in if lower \<in> set hop_by_hop then headers else object_set key val headers)
          entries []"

definition host_header :: "string \<Rightarrow> nat \<Rightarrow> header_value" where
  \<comment> \<open>The template literal \<open>${localHost}:${localPort}\<close>\<close>
  "host_header localHost localPort = HString (localHost @ '':'' @ show_nat localPort)"

record RequestOptions =
  opt_hostname :: string
  opt_port :: nat
  opt_path :: string
  opt_method :: string
  opt_headers :: headers

definition request_options :: "(string \<Rightarrow> string) \<Rightarrow> string \<Rightarrow> nat \<Rightarrow> ForwardedRequest \<Rightarrow> RequestOptions" where
  \<comment> \<open>\<open>bodyBuf\<close>, \<open>headers\<close> and \<open>options\<close>; the two copies build them the same way.
      The object literal of \<open>options.headers\<close> copies the properties of \<open>headers\<close> and
      defines \<open>content-length\<close>.\<close>
  "request_options toLowerCase localHost localPort request =
     (let bodyBuf = Buffer_from_base64 (req_body request);
          headers = strip_headers toLowerCase (req_headers request);
          headers = object_set ''host'' (host_header localHost localPort) headers
      in \<lparr>opt_hostname = localHost, opt_port = localPort, opt_path = req_path request,
          opt_method = req_method request,
          opt_headers = AList.update ''content-length'' (HNumber (length bodyBuf)) headers\<rparr>)"

datatype transport = Http | Https

text \<open>
  What \<open>forwardToLocal\<close> hands to Node before any callback runs: the transport, the
  options of \<open>transport.request\<close> and the body written (none when \<open>bodyBuf\<close> is
  empty).
\<close>

record local_call =
  call_transport :: transport
  call_options :: RequestOptions
  call_written :: "char list option"

text \<open>
  The four callbacks \<open>forwardToLocal\<close> registers, each with what it reads: the end of
  the local response (status code and headers of \<open>localRes\<close>, the chunks pushed so
  far), an error of the response stream, an error of the request, and the timeout.
\<close>

datatype callback =
    OnEnd "int option" headers "char list list"
  | OnResponseError
  | OnRequestError
  | OnTimeout

text \<open>
  The body of the promise executor calls into Node: \<open>transport.request\<close>,
  \<open>localReq.on\<close>, \<open>localReq.setTimeout\<close>, \<open>localReq.write\<close> and
  \<open>localReq.end\<close>. It has no \<open>try\<close>: when one of these calls throws, the promise is
  rejected with the error. \<open>RequestThrows\<close> is a throw of \<open>transport.request\<close>, before
  any callback is registered; \<open>WriteThrows\<close> is a throw of \<open>write\<close> or \<open>end\<close>, after.
\<close>

datatype executor_outcome = Returns | RequestThrows string | WriteThrows string

text \<open>
  What happens on the socket of the outbound request afterwards, each event with the
  time in milliseconds at which it happens: the socket connects, bytes move without any
  callback of \<open>forwardToLocal\<close> being called, the response head arrives (the callback
  of \<open>transport.request\<close>, which registers the listeners of \<open>localRes\<close>), a chunk
  arrives, the response ends, the response stream fails, the request fails.

  \<open>localReq.setTimeout(ms, f)\<close> is Node's inactivity timer: from the moment the socket
  is connected, \<open>f\<close> is called once the socket has seen no activity for \<open>ms\<close>
  milliseconds; every event on the socket starts the interval again, and the timer is
  dropped when the request is over. \<open>fw_idle_since\<close> is the time of the last activity
  while the timer runs.
\<close>

datatype socket_event =
    Connected
  | Activity
  | Response "int option" headers
  | Data "char list"
  | End
  | ResponseError
  | RequestError

record forward_run =
  fw_promise :: "ForwardedResponse promise"
  fw_destroyed :: bool
  fw_response :: "(int option \<times> headers) option"
  fw_chunks :: "char list list"
  fw_idle_since :: "nat option"

definition forward_start :: "ForwardedResponse promise \<Rightarrow> forward_run" where
  "forward_start p = \<lparr>fw_promise = p, fw_destroyed = False, fw_response = None,
     fw_chunks = [], fw_idle_since = None\<rparr>"

definition on_timeout :: "(callback \<Rightarrow> ForwardedResponse) \<Rightarrow> forward_run \<Rightarrow> forward_run" where
  \<comment> \<open>The timeout callback: \<open>localReq.destroy(); resolve(...)\<close>.\<close>
  "on_timeout respond run =
     run\<lparr>fw_destroyed := True,
         fw_promise := resolve (respond OnTimeout) (fw_promise run),
         fw_idle_since := None\<rparr>"

definition timer_due :: "nat \<Rightarrow> forward_run \<Rightarrow> nat \<Rightarrow> bool" where
  "timer_due timeout run t =
     (case fw_idle_since run of None \<Rightarrow> False | Some since \<Rightarrow> since + timeout \<le> t)"

definition touch :: "nat \<Rightarrow> forward_run \<Rightarrow> forward_run" where
  \<comment> \<open>Activity at time \<open>t\<close> restarts a running timer.\<close>
  "touch t run =
     (case fw_idle_since run of None \<Rightarrow> run | Some since \<Rightarrow> run\<lparr>fw_idle_since := Some t\<rparr>)"

fun deliver :: "(callback \<Rightarrow> ForwardedResponse) \<Rightarrow> nat \<Rightarrow> socket_event \<Rightarrow> forward_run \<Rightarrow> forward_run" where
  "deliver respond t Connected run = run\<lparr>fw_idle_since := Some t\<rparr>"
| "deliver respond t Activity run = touch t run"
| "deliver respond t (Response statusCode hs) run =
     touch t (run\<lparr>fw_response := Some (statusCode, hs), fw_chunks := []\<rparr>)"
| "deliver respond t (Data chunk) run =
     touch t (case fw_response run of
                None \<Rightarrow> run
              | Some localRes \<Rightarrow> run\<lparr>fw_chunks := fw_chunks run @ [chunk]\<rparr>)"
| "deliver respond t End run =
     (case fw_response run of
        None \<Rightarrow> touch t run
      | Some (statusCode, hs) \<Rightarrow>
          run\<lparr>fw_promise := resolve (respond (OnEnd statusCode hs (fw_chunks run))) (fw_promise run),
              fw_idle_since := None\<rparr>)"
| "deliver respond t ResponseError run =
     (case fw_response run of
        None \<Rightarrow> touch t run
      | Some localRes \<Rightarrow>
          run\<lparr>fw_promise := resolve (respond OnResponseError) (fw_promise run),
              fw_idle_since := None\<rparr>)"
| "deliver respond t RequestError run =
     run\<lparr>fw_promise := resolve (respond OnRequestError) (fw_promise run),
         fw_idle_since := None\<rparr>"

definition forward_step :: "(callback \<Rightarrow> ForwardedResponse) \<Rightarrow> nat \<Rightarrow> nat \<times> socket_event \<Rightarrow> forward_run \<Rightarrow> forward_run" where
  \<comment> \<open>The next event of the socket. A destroyed socket has no events; when the timer
      has run out before the event, the timeout callback runs instead.\<close>
  "forward_step respond timeout tev run =
     (if fw_destroyed run then run
      else if timer_due timeout run (fst tev) then on_timeout respond run
      else deliver respond (fst tev) (snd tev) run)"

definition forward_finish :: "(callback \<Rightarrow> ForwardedResponse) \<Rightarrow> nat \<Rightarrow> nat \<Rightarrow> forward_run \<Rightarrow> forward_run" where
  \<comment> \<open>No further event up to time \<open>now\<close>: the timeout callback runs if the timer has
      run out by then.\<close>
  "forward_finish respond timeout now run =
     (if \<not> fw_destroyed run \<and> timer_due timeout run now then on_timeout respond run else run)"

definition forward_until :: "(callback \<Rightarrow> ForwardedResponse) \<Rightarrow> nat \<Rightarrow> executor_outcome \<Rightarrow> (nat \<times> socket_event) list \<Rightarrow> nat \<Rightarrow> forward_run" where
  \<comment> \<open>The promise and the request at time \<open>now\<close>, given how the executor ended and the
      events of the socket in the order of their times.\<close>
  "forward_until respond timeout outcome evs now =
     (case outcome of
        RequestThrows e \<Rightarrow> forward_start (Rejected e)
      | WriteThrows e \<Rightarrow>
          forward_finish respond timeout now
            (fold (forward_step respond timeout) (filter (\<lambda>tev. fst tev \<le> now) evs)
               (forward_start (Rejected e)))
      | Returns \<Rightarrow>
          forward_finish respond timeout now
            (fold (forward_step respond timeout) (filter (\<lambda>tev. fst tev \<le> now) evs)
               (forward_start Pending)))"

subsection \<open>The copy of the library module\<close>

definition api_transport :: "string \<Rightarrow> transport" where
  \<comment> \<open>\<open>localHost.startsWith('https') ? https : http\<close>\<close>
  "api_transport localHost = (if startsWith localHost ''https'' then Https else Http)"

definition api_local_call :: "(string \<Rightarrow> string) \<Rightarrow> string \<Rightarrow> nat \<Rightarrow> ForwardedRequest \<Rightarrow> local_call" where
  "api_local_call toLowerCase localHost localPort request =
     (let bodyBuf = Buffer_from_base64 (req_body request)
      in \<lparr>call_transport = api_transport localHost,
          call_options = request_options toLowerCase localHost localPort request,
          call_written = (if length bodyBuf > 0 then Some bodyBuf else None)\<rparr>)"

definition api_timeout :: nat where
  \<comment> \<open>\<open>localReq.setTimeout(25_000, ...)\<close>\<close>
  "api_timeout = 25000"

definition api_local_response :: "string \<Rightarrow> nat \<Rightarrow> ForwardedRequest \<Rightarrow> callback \<Rightarrow> ForwardedResponse" where
  \<comment> \<open>The value each callback passes to \<open>resolve\<close>.\<close>
  "api_local_response localHost localPort request cb =
     (case cb of
        OnEnd statusCode hs chunks \<Rightarrow>
          \<lparr>res_type = ''response'', res_requestId = req_requestId request,
           res_status = (case statusCode of None \<Rightarrow> 200 | Some code \<Rightarrow> code),
           res_headers = hs,
           res_body = toString_base64 (concat chunks)\<rparr>
      | OnResponseError \<Rightarrow>
          makeErrorResponse (req_requestId request) 502 ''Local service error''
      | OnRequestError \<Rightarrow>
          makeErrorResponse (req_requestId request) 502
            (''Could not connect to '' @ localHost @ '':'' @ show_nat localPort
               @ ''. Is your service running?'')
      | OnTimeout \<Rightarrow>
          makeErrorResponse (req_requestId request) 504 ''Local service timed out'')"

definition api_forwardToLocal :: "string \<Rightarrow> nat \<Rightarrow> ForwardedRequest \<Rightarrow> executor_outcome \<Rightarrow> (nat \<times> socket_event) list \<Rightarrow> nat \<Rightarrow> forward_run" where
  "api_forwardToLocal localHost localPort request outcome evs now =
     forward_until (api_local_response localHost localPort request) api_timeout outcome evs now"

subsection \<open>The copy of the command line module\<close>

definition cli_transport :: "string \<Rightarrow> transport" where
  \<comment> \<open>\<open>const isHttps = localHost.startsWith('https://'); isHttps ? https : http\<close>\<close>
  "cli_transport localHost = (if startsWith localHost ''https://'' then Https else Http)"

definition cli_local_call :: "(string \<Rightarrow> string) \<Rightarrow> string \<Rightarrow> nat \<Rightarrow> ForwardedRequest \<Rightarrow> local_call" where
  "cli_local_call toLowerCase localHost localPort request =
     (let bodyBuf = Buffer_from_base64 (req_body request)
      in \<lparr>call_transport = cli_transport localHost,
          call_options = request_options toLowerCase localHost localPort request,
          call_written = (if length bodyBuf > 0 then Some bodyBuf else None)\<rparr>)"

definition cli_timeout :: nat where
  \<comment> \<open>\<open>localReq.setTimeout(25_000, ...)\<close>\<close>
  "cli_timeout = 25000"

definition cli_error_response :: "string \<Rightarrow> int \<Rightarrow> (string \<times> string) list \<Rightarrow> ForwardedResponse" where
  \<comment> \<open>The object literal the command line copy writes out in each error callback.\<close>
  "cli_error_response requestId status payload =
     \<lparr>res_type = ''response'', res_requestId = requestId, res_status = status,
      res_headers = [(''content-type'', HString ''application/json'')],
      res_body = toString_base64 (JSON_stringify_strings payload)\<rparr>"

definition cli_local_response :: "string \<Rightarrow> nat \<Rightarrow> ForwardedRequest \<Rightarrow> callback \<Rightarrow> ForwardedResponse" where
  "cli_local_response localHost localPort request cb =
     (case cb of
        OnEnd statusCode hs chunks \<Rightarrow>
          (let responseBody = concat chunks
           in \<lparr>res_type = ''response'', res_requestId = req_requestId request,
               res_status = (case statusCode of None \<Rightarrow> 200 | Some code \<Rightarrow> code),
               res_headers = hs,
               res_body = toString_base64 responseBody\<rparr>)
      | OnResponseError \<Rightarrow>
          cli_error_response (req_requestId request) 502 [(''error'', ''Local service error'')]
      | OnRequestError \<Rightarrow>
          cli_error_response (req_requestId request) 502
            [(''error'', ''Bad Gateway''),
             (''message'', ''Could not connect to '' @ localHost @ '':'' @ show_nat localPort
                @ ''. Is your local service running?'')]
      | OnTimeout \<Rightarrow>
          cli_error_response (req_requestId request) 504
            [(''error'', ''Gateway Timeout''),
             (''message'', ''Local service took too long to respond'')])"

definition cli_forwardToLocal :: "string \<Rightarrow> nat \<Rightarrow> ForwardedRequest \<Rightarrow> executor_outcome \<Rightarrow> (nat \<times> socket_event) list \<Rightarrow> nat \<Rightarrow> forward_run" where
  "cli_forwardToLocal localHost localPort request outcome evs now =
     forward_until (cli_local_response localHost localPort request) cli_timeout outcome evs now"

section \<open>The library module: \<open>tunnrl\<close>\<close>

datatype ready_state = CONNECTING | OPEN | CLOSING | CLOSED

datatype js_error = TypeError

text \<open>
  What a handler does to its collaborators, in the order of the calls:
  \<open>clearTimeout(connectTimeout)\<close>, calls on the socket, \<open>resolve\<close> and \<open>reject\<close>
  of the promise \<open>tunnrl\<close> returns, events emitted on the tunnel, and the start of a
  forward on a message (the message is cast to a request, not checked).
\<close>

datatype api_effect =
    ClearTimeout | WsClose | WsTerminate | WsPong
  | WsSend ForwardedResponse
  | Reject string | Resolve
  | EmitRequest RequestInfo | EmitClose | EmitError string
  | ForwardToLocal json

record api_state =
  url :: "json option"
  resolved :: bool
  connectTimeout :: bool
  tunnel_promise :: "unit promise"

definition api_init :: api_state where
  \<comment> \<open>\<open>tunnel.url = ''\<close>, \<open>resolved = false\<close>, the 15 s timer armed, the promise pending.\<close>
  "api_init = \<lparr>url = Some (JStr []), resolved = False, connectTimeout = True,
     tunnel_promise = Pending\<rparr>"

definition api_on_message :: "api_state \<Rightarrow> json option \<Rightarrow> js_error + api_state \<times> api_effect list" where
  \<comment> \<open>\<open>ws.on('message', ...)\<close> up to the \<open>await\<close>. The argument is the outcome of
      \<open>JSON.parse(data.toString())\<close>: \<open>None\<close> when it throws. Reading \<open>msg.type\<close>
      of \<open>null\<close> throws.\<close>
  "api_on_message s parsed =
     (case parsed of
        None \<Rightarrow> Inr (s, [])
      | Some JNull \<Rightarrow> Inl TypeError
      | Some msg \<Rightarrow>
          if get_prop msg ''type'' = Some (JStr ''error'') then
            (let message = ''tunnrl: '' @ js_String (get_prop msg ''message'')
             in if \<not> resolved s
                then Inr (s\<lparr>connectTimeout := False,
                             tunnel_promise := reject message (tunnel_promise s)\<rparr>,
                          [ClearTimeout, WsClose, Reject message])
                else Inr (s\<lparr>connectTimeout := False\<rparr>, [ClearTimeout, WsClose]))
          else if get_prop msg ''type'' = Some (JStr ''registered'') then
            Inr (s\<lparr>connectTimeout := False, url := get_prop msg ''url'', resolved := True,
                    tunnel_promise := resolve () (tunnel_promise s)\<rparr>,
                 [ClearTimeout, Resolve])
          else if get_prop msg ''type'' = Some (JStr ''request'') then
            Inr (s, [ForwardToLocal msg])
          else Inr (s, []))"

definition api_on_forwarded :: "ready_state \<Rightarrow> ForwardedRequest \<Rightarrow> ForwardedResponse \<Rightarrow> int \<Rightarrow> api_effect list" where
  \<comment> \<open>The rest of the request branch, after \<open>await forwardToLocal(...)\<close>; the first
      argument is \<open>ws.readyState\<close> at that moment.\<close>
  "api_on_forwarded readyState request response duration =
     EmitRequest \<lparr>info_method = req_method request, info_path = req_path request,
                  info_status = res_status response, info_duration = duration\<rparr>
       # (if readyState = OPEN then [WsSend response] else [])"

definition api_on_close :: "api_state \<Rightarrow> api_state \<times> api_effect list" where
  "api_on_close s =
     (if resolved s then (s, [EmitClose])
      else (let message = ''tunnrl: connection closed before tunnel was established''
            in (s\<lparr>connectTimeout := False,
                   tunnel_promise := reject message (tunnel_promise s)\<rparr>,
                [ClearTimeout, Reject message])))"

definition api_on_error :: "string \<Rightarrow> api_state \<Rightarrow> api_state \<times> api_effect list" where
  "api_on_error err s =
     (if \<not> resolved s
      then (s\<lparr>connectTimeout := False, tunnel_promise := reject err (tunnel_promise s)\<rparr>,
            [ClearTimeout, Reject err])
      else (s\<lparr>connectTimeout := False\<rparr>, [ClearTimeout, EmitError err]))"

definition api_on_connectTimeout :: "api_state \<Rightarrow> api_state \<times> api_effect list" where
  "api_on_connectTimeout s =
     (let message = ''tunnrl: connection timed out after 15s''
      in (s\<lparr>connectTimeout := False, tunnel_promise := reject message (tunnel_promise s)\<rparr>,
          [WsTerminate, Reject message]))"

section \<open>The command line client\<close>

subsection \<open>The replay buffer of the command line client\<close>

definition recentRequests_record :: "ForwardedRequest \<Rightarrow> ForwardedRequest list \<Rightarrow> ForwardedRequest list" where
  \<comment> \<open>\<open>recentRequests.push(request); if (recentRequests.length > 10) recentRequests.shift();\<close>\<close>
  "recentRequests_record request recentRequests =
     (let pushed = recentRequests @ [request]
      in if length pushed > 10 then tl pushed else pushed)"

subsection \<open>State of the command line client\<close>

record cli_state =
  reconnectDelay :: real
  reconnectAttempts :: nat
  shuttingDown :: bool
  ws :: "nat option"
  recentRequests :: "ForwardedRequest list"
  tunnelUrl :: "json option"

definition cli_on_open :: "cli_state \<Rightarrow> cli_state" where
  \<comment> \<open>\<open>ws.on('open', ...)\<close>: \<open>reconnectDelay = 1000; reconnectAttempts = 0;\<close>\<close>
  "cli_on_open s = s\<lparr>reconnectDelay := 1000, reconnectAttempts := 0\<rparr>"

definition scheduleReconnect :: "real \<Rightarrow> cli_state \<Rightarrow> cli_state \<times> real" where
  \<comment> \<open>\<open>random\<close> is the value \<open>Math.random()\<close> returns, in \<open>[0, 1)\<close>; the second
      component is the \<open>delay\<close> handed to \<open>setTimeout\<close>. The product, the sum and the
      doubling are operations on doubles.\<close>
  "scheduleReconnect random s =
     (let attempts = reconnectAttempts s + 1;
          jitter = to_double (random * 500);
          delay = min (to_double (reconnectDelay s + jitter)) 30000
      in (s\<lparr>reconnectAttempts := attempts,
              reconnectDelay := min (to_double (reconnectDelay s * 2)) 30000\<rparr>, delay))"

fun reconnect_delays :: "real list \<Rightarrow> cli_state \<Rightarrow> real list" where
  \<comment> \<open>The delays of consecutive unexpected closes with no successful open in between,
      one \<open>Math.random()\<close> value per close.\<close>
  "reconnect_delays [] s = []"
| "reconnect_delays (random # randoms) s =
     (case scheduleReconnect random s of (s', delay) \<Rightarrow> delay # reconnect_delays randoms s')"

definition cli_init :: cli_state where
  \<comment> \<open>The variables of \<open>startTunnel\<close> as declared.\<close>
  "cli_init = \<lparr>reconnectDelay = 1000, reconnectAttempts = 0, shuttingDown = False,
     ws = None, recentRequests = [], tunnelUrl = Some (JStr [])\<rparr>"

fun after_closes :: "real list \<Rightarrow> cli_state \<Rightarrow> cli_state" where
  \<comment> \<open>The state after the same consecutive closes.\<close>
  "after_closes [] s = s"
| "after_closes (random # randoms) s = after_closes randoms (fst (scheduleReconnect random s))"

definition spec_delay :: "real \<Rightarrow> real \<Rightarrow> real" where
  \<comment> \<open>The delay as the specification words it:
      \<open>min(currentDelayMs, 30000) + random(0,500)\<close>.\<close>
  "spec_delay currentDelayMs jitter = min currentDelayMs 30000 + jitter"

definition backoff_base :: "nat \<Rightarrow> real" where
  \<comment> \<open>The spec's sequence \<open>1000, 2000, 4000, 8000, 16000, 30000, 30000, ...\<close>\<close>
  "backoff_base n = min (1000 * 2 ^ n) 30000"

text \<open>
  Sockets are named by numbers: \<open>ws\<close> holds the socket the variable refers to, and a
  reconnect replaces it. The environment gives the ready state of every socket, whether
  \<open>opts.qr\<close> is set and whether the QR code renders. Console output is one \<open>Log\<close>
  per call.
\<close>

datatype cli_effect =
    Log | Clear | Exit nat
  | NewSocket nat | Close nat | Send nat ForwardedResponse | Pong nat
  | Forward json
  | SetTimeout real

record cli_env =
  opts_qr :: bool
  qr_rendered :: bool
  readyState :: "nat \<Rightarrow> ready_state"

definition cli_connect :: "nat \<Rightarrow> cli_state \<Rightarrow> cli_state \<times> cli_effect list" where
  \<comment> \<open>\<open>connect()\<close>; \<open>sock\<close> names the socket \<open>new WebSocket(...)\<close> creates.\<close>
  "cli_connect sock s =
     (if shuttingDown s then (s, []) else (s\<lparr>ws := Some sock\<rparr>, [NewSocket sock]))"

definition cli_on_message :: "cli_env \<Rightarrow> cli_state \<Rightarrow> json option \<Rightarrow> js_error + cli_state \<times> cli_effect list" where
  \<comment> \<open>\<open>ws.on('message', ...)\<close> up to \<open>await forwardToLocal(...)\<close>.\<close>
  "cli_on_message env s parsed =
     (case parsed of
        None \<Rightarrow> Inr (s, [])
      | Some JNull \<Rightarrow> Inl TypeError
      | Some msg \<Rightarrow>
          if get_prop msg ''type'' = Some (JStr ''error'') then
            Inr (s\<lparr>shuttingDown := True\<rparr>,
                 [Log, Log] @ (case ws s of None \<Rightarrow> [] | Some w \<Rightarrow> [Close w]) @ [Exit 1])
          else if get_prop msg ''type'' = Some (JStr ''registered'') then
            Inr (s\<lparr>tunnelUrl := get_prop msg ''url''\<rparr>,
                 Clear # (if opts_qr env \<and> qr_rendered env then [Log] else [])
                   @ replicate 8 Log)
          else if get_prop msg ''type'' = Some (JStr ''request'') then
            Inr (s, [Forward msg])
          else Inr (s, []))"

definition cli_on_forwarded :: "cli_env \<Rightarrow> cli_state \<Rightarrow> ForwardedRequest \<Rightarrow> ForwardedResponse \<Rightarrow> cli_state \<times> cli_effect list" where
  \<comment> \<open>The rest of the request branch, after the \<open>await\<close>.\<close>
  "cli_on_forwarded env s request response =
     (s\<lparr>recentRequests := recentRequests_record request (recentRequests s)\<rparr>,
      Log # (case ws s of
               None \<Rightarrow> []
             | Some w \<Rightarrow> if readyState env w = OPEN then [Send w response] else []))"

definition cli_on_close :: "real \<Rightarrow> cli_state \<Rightarrow> cli_state \<times> cli_effect list" where
  \<comment> \<open>\<open>ws.on('close', ...)\<close>, with the value of \<open>Math.random()\<close>.\<close>
  "cli_on_close random s =
     (if shuttingDown s then (s, [])
      else (case scheduleReconnect random s of
              (s', delay) \<Rightarrow> (s', [Log, Log, SetTimeout delay])))"

definition cli_on_reconnect_timer :: "nat \<Rightarrow> cli_state \<Rightarrow> cli_state \<times> cli_effect list" where
  \<comment> \<open>The callback \<open>scheduleReconnect\<close> hands to \<open>setTimeout\<close>.\<close>
  "cli_on_reconnect_timer sock s =
     (if \<not> shuttingDown s
      then (case cli_connect sock s of (s', effects) \<Rightarrow> (s', Log # effects))
      else (s, []))"

section \<open>The wire format as the specification gives it\<close>






section \<open>Sample data\<close>

definition toLowerCase_ascii :: "string \<Rightarrow> string" where
  \<comment> \<open>\<open>toLowerCase\<close> as it acts on a string of ASCII characters.\<close>
  "toLowerCase_ascii s =
     map (\<lambda>c. let n = of_char c :: nat in if 65 \<le> n \<and> n \<le> 90 then char_of (n + 32) else c) s"

definition sample_request :: "string \<Rightarrow> ForwardedRequest" where
  \<comment> \<open>A request as the relay sends it, for concrete runs.\<close>
  "sample_request rid = \<lparr>req_requestId = rid, req_method = ''GET'', req_path = ''/'',
     req_headers = [(''Host'', HString ''abc123.tunnrl.dev''), (''Connection'', HString ''keep-alive''),
       (''accept'', HStrings [''text/html'', ''*/*''])],
     req_body = ''aGVsbG8=''\<rparr>"

definition two_hosts_request :: ForwardedRequest where
  \<comment> \<open>A request whose header object has the keys \<open>host\<close> and \<open>Host\<close>.\<close>
  "two_hosts_request = \<lparr>req_requestId = ''r02'', req_method = ''GET'', req_path = ''/'',
     req_headers = [(''host'', HString ''a.example''), (''Host'', HString ''b.example'')],
     req_body = []\<rparr>"

definition eleven_requests :: "ForwardedRequest list" where
  "eleven_requests = map sample_request
     [''r01'', ''r02'', ''r03'', ''r04'', ''r05'', ''r06'', ''r07'', ''r08'', ''r09'', ''r10'', ''r11'']"


definition quota_frame :: json where
  \<comment> \<open>The frame \<open>{"type":"error","message":"quota exceeded"}\<close>, parsed.\<close>
  "quota_frame = JObj [(''type'', JStr ''error''), (''message'', JStr ''quota exceeded'')]"



definition request_frame :: json where
  \<comment> \<open>The frame \<open>{"type":"request","requestId":"r01"}\<close>, parsed.\<close>
  "request_frame = JObj [(''type'', JStr ''request''), (''requestId'', JStr ''r01'')]"

definition sample_env :: cli_env where
  \<comment> \<open>Socket 1 is open, every other socket is closed.\<close>
  "sample_env = \<lparr>opts_qr = False, qr_rendered = False, readyState = (\<lambda>w. if w = 1 then OPEN else CLOSED)\<rparr>"

definition reconnected_env :: cli_env where
  \<comment> \<open>Socket 1 has closed and socket 2 is open.\<close>
  "reconnected_env = \<lparr>opts_qr = False, qr_rendered = False, readyState = (\<lambda>w. if w = 2 then OPEN else CLOSED)\<rparr>"

definition sample_response :: ForwardedResponse where
  "sample_response = \<lparr>res_type = ''response'', res_requestId = ''r01'', res_status = 200,
     res_headers = [(''content-type'', HString ''text/plain'')], res_body = ''aGVsbG8=''\<rparr>"


section \<open>Theorems\<close>

subsection \<open>The replay buffer\<close>

lemma recentRequests_record_fold:
  "length buf \<le> 10 \<Longrightarrow>
   fold recentRequests_record rs buf = drop (length (buf @ rs) - 10) (buf @ rs)"
proof (induction rs arbitrary: buf)
  case Nil
  then show ?case by simp
next
  case (Cons r rs)
  let ?b = "recentRequests_record r buf"
  have len: "length ?b \<le> 10"
    using Cons.prems by (simp add: recentRequests_record_def Let_def)
  have step: "drop (length (?b @ rs) - 10) (?b @ rs)
                = drop (length (buf @ r # rs) - 10) (buf @ r # rs)"
  proof (cases "length buf = 10")
    case True
    then obtain x xs where buf: "buf = x # xs" by (cases buf) auto
    with True have "?b = xs @ [r]" by (simp add: recentRequests_record_def Let_def)
    with buf True show ?thesis by (simp add: Suc_diff_le)
  next
    case False
    with Cons.prems have "?b = buf @ [r]" by (simp add: recentRequests_record_def Let_def)
    then show ?thesis by simp
  qed
  show ?case using Cons.IH [OF len] step by simp
qed


text \<open>
  Claim C9. The replay buffer never holds more than 10 entries: after recording any
  sequence of requests into the empty buffer it holds exactly the last 10 of them (or all,
  when there are fewer), in the order they were recorded; after 11 distinct requests the
  first one is gone and the other ten are left in their order.
\<close>

theorem replay_buffer_bound:
  "length (fold recentRequests_record rs []) \<le> 10 \<and>
   fold recentRequests_record rs [] = drop (length rs - 10) rs \<and>
   (length rs = 11 \<and> distinct rs \<longrightarrow>
      hd rs \<notin> set (fold recentRequests_record rs []) \<and>
      fold recentRequests_record rs [] = tl rs)"
proof -
  have eq: "fold recentRequests_record rs [] = drop (length rs - 10) rs"
    using recentRequests_record_fold [of "[]" rs] by simp
  have bound: "length (fold recentRequests_record rs []) \<le> 10"
    unfolding eq by simp
  have eleven: "hd rs \<notin> set (fold recentRequests_record rs []) \<and>
      fold recentRequests_record rs [] = tl rs"
    if len: "length rs = 11" and dist: "distinct rs"
  proof -
    from len obtain x xs where rs: "rs = x # xs" by (cases rs) auto
    with len have "fold recentRequests_record rs [] = xs" unfolding eq by simp
    with rs dist show ?thesis by simp
  qed
  from eq bound eleven show ?thesis by blast
qed


theorem replay_buffer_bound_witness:
  "length eleven_requests = 11 \<and> distinct eleven_requests \<and>
   length (fold recentRequests_record eleven_requests []) = 10 \<and>
   hd eleven_requests \<notin> set (fold recentRequests_record eleven_requests []) \<and>
   fold recentRequests_record eleven_requests [] = tl eleven_requests"
proof -
  have len: "length eleven_requests = 11"
    by (simp add: eleven_requests_def)
  have inj: "sample_request a = sample_request b \<longleftrightarrow> a = b" for a b
    by (simp add: sample_request_def)
  have dist: "distinct eleven_requests"
    by (simp add: eleven_requests_def inj)
  from replay_buffer_bound [of eleven_requests] len dist
  have gone: "hd eleven_requests \<notin> set (fold recentRequests_record eleven_requests [])"
    and rest: "fold recentRequests_record eleven_requests [] = tl eleven_requests"
    by blast+
  from rest len have "length (fold recentRequests_record eleven_requests []) = 10"
    by simp
  with len dist gone rest show ?thesis by blast
qed

subsection \<open>Transport selection\<close>

lemma startsWith_prefix: "startsWith s p = prefix p s"
proof
  assume "startsWith s p"
  then have "s = p @ drop (length p) s"
    unfolding startsWith_def by (metis append_take_drop_id)
  then show "prefix p s" by (rule prefixI)
next
  assume "prefix p s"
  then obtain zs where "s = p @ zs" by (rule prefixE)
  then show "startsWith s p" by (simp add: startsWith_def)
qed

lemma transport_choice:
  "(api_transport localHost, cli_transport localHost)
     = (if startsWith localHost ''https://'' then (Https, Https)
        else if startsWith localHost ''https'' then (Https, Http)
        else (Http, Http))"
proof -
  have "prefix ''https'' ''https://''" by simp
  then have "startsWith localHost ''https''" if "startsWith localHost ''https://''"
    using that unfolding startsWith_prefix by (rule prefix_order.trans)
  then show ?thesis by (auto simp: api_transport_def cli_transport_def)
qed

text \<open>
  Claim C10. The two copies of \<open>forwardToLocal\<close> do not select the same transport for
  every host. At the host \<open>https.local\<close>, which starts with \<open>https\<close> but not with
  \<open>https://\<close>, the library module selects the encrypted transport and the command
  line module the plain one.
\<close>

theorem transport_https_prefix:
  "api_transport ''https.local'' = Https \<and> cli_transport ''https.local'' = Http"
  by (simp add: api_transport_def cli_transport_def startsWith_def)

subsection \<open>Rounding to doubles\<close>

lemma round_half_even_of_int: "round_half_even (of_int k) = k"
  by (simp add: round_half_even_def)

lemma round_half_even_range:
  "\<lfloor>x\<rfloor> \<le> round_half_even x \<and> round_half_even x \<le> \<lfloor>x\<rfloor> + 1"
  by (simp add: round_half_even_def Let_def)

lemma round_half_even_mono:
  assumes "x \<le> y"
  shows "round_half_even x \<le> round_half_even y"
proof (cases "\<lfloor>x\<rfloor> = \<lfloor>y\<rfloor>")
  case True
  with assms have "x - of_int \<lfloor>x\<rfloor> \<le> y - of_int \<lfloor>y\<rfloor>" by simp
  with True show ?thesis by (auto simp: round_half_even_def Let_def)
next
  case False
  from assms have "\<lfloor>x\<rfloor> \<le> \<lfloor>y\<rfloor>" by (rule floor_mono)
  with False have "\<lfloor>x\<rfloor> + 1 \<le> \<lfloor>y\<rfloor>" by simp
  with round_half_even_range [of x] round_half_even_range [of y] show ?thesis by linarith
qed

lemma bitlen_mono:
  assumes "a \<le> b"
  shows "bitlen a \<le> bitlen b"
proof (cases "0 < b")
  case True
  from bitlen_bounds [OF True] assms have "a < 2 ^ nat (bitlen b)" by simp
  then show ?thesis using bitlen_nonneg [of b] by (simp add: bitlen_le_iff_power)
next
  case False
  with assms have "bitlen a = 0" "bitlen b = 0" by (simp_all add: bitlen_eq_zero_iff)
  then show ?thesis by simp
qed

lemma double_shift_mono: "X \<le> Y \<Longrightarrow> double_shift X \<le> double_shift Y"
  unfolding double_shift_def
  using bitlen_mono [OF floor_mono, of X Y] by simp

lemma below_shift:
  assumes "0 \<le> X"
  shows "X < 2 ^ (double_precision + double_shift X)"
proof -
  let ?n = "\<lfloor>X\<rfloor>"
  have "bitlen ?n \<le> int (double_precision + double_shift X)"
    by (simp add: double_shift_def)
  then have "?n < 2 ^ nat (int (double_precision + double_shift X))"
    unfolding bitlen_le_iff_power by blast
  then have "?n < 2 ^ (double_precision + double_shift X)" by (simp only: nat_int)
  then have "?n + 1 \<le> 2 ^ (double_precision + double_shift X)" by simp
  then have "real_of_int (?n + 1) \<le> real_of_int (2 ^ (double_precision + double_shift X))"
    by (simp only: of_int_le_iff)
  then have "real_of_int ?n + 1 \<le> 2 ^ (double_precision + double_shift X)" by simp
  moreover have "X < real_of_int ?n + 1" by linarith
  ultimately show ?thesis by linarith
qed

lemma above_shift:
  assumes "0 < double_shift X"
  shows "2 ^ (double_precision + double_shift X - 1) \<le> X"
proof -
  let ?n = "\<lfloor>X\<rfloor>"
  from assms have b: "bitlen ?n = int (double_precision + double_shift X)"
    by (simp add: double_shift_def)
  with assms have "bitlen ?n \<noteq> 0" by simp
  then have pos: "0 < ?n" using bitlen_eq_zero_iff [of ?n] by linarith
  from bitlen_bounds [OF pos] have "2 ^ nat (bitlen ?n - 1) \<le> ?n" by blast
  moreover have "nat (bitlen ?n - 1) = double_precision + double_shift X - 1"
    unfolding b by simp
  ultimately have "2 ^ (double_precision + double_shift X - 1) \<le> ?n" by simp
  then have "real_of_int (2 ^ (double_precision + double_shift X - 1)) \<le> real_of_int ?n"
    by (simp only: of_int_le_iff)
  then have "2 ^ (double_precision + double_shift X - 1) \<le> real_of_int ?n" by simp
  moreover have "real_of_int ?n \<le> X" by linarith
  ultimately show ?thesis by linarith
qed

lemma round_scaled_upper:
  assumes "0 \<le> X"
  shows "round_scaled X \<le> 2 ^ (double_precision + double_shift X)"
proof -
  let ?s = "double_shift X"
  have "X / 2 ^ ?s \<le> 2 ^ double_precision"
    using below_shift [OF assms] by (simp add: power_add field_simps)
  then have "X / 2 ^ ?s \<le> real_of_int (2 ^ double_precision)" by simp
  from round_half_even_mono [OF this]
  have "round_half_even (X / 2 ^ ?s) \<le> 2 ^ double_precision"
    by (simp only: round_half_even_of_int)
  then have "real_of_int (round_half_even (X / 2 ^ ?s)) \<le> real_of_int (2 ^ double_precision)"
    by (simp only: of_int_le_iff)
  then have "real_of_int (round_half_even (X / 2 ^ ?s)) * 2 ^ ?s \<le> 2 ^ double_precision * 2 ^ ?s"
    by (intro mult_right_mono) simp_all
  then show ?thesis by (simp add: round_scaled_def power_add)
qed

lemma round_scaled_lower:
  assumes "0 < double_shift X"
  shows "2 ^ (double_precision + double_shift X - 1) \<le> round_scaled X"
proof -
  let ?s = "double_shift X"
  have split: "double_precision + ?s - 1 = (double_precision - 1) + ?s"
    by (simp add: double_precision_def)
  have "2 ^ (double_precision - 1) * 2 ^ ?s \<le> X"
    using above_shift [OF assms] unfolding split by (simp add: power_add)
  then have "2 ^ (double_precision - 1) \<le> X / 2 ^ ?s"
    by (simp add: field_simps)
  then have "real_of_int (2 ^ (double_precision - 1)) \<le> X / 2 ^ ?s" by simp
  from round_half_even_mono [OF this]
  have "2 ^ (double_precision - 1) \<le> round_half_even (X / 2 ^ ?s)"
    by (simp only: round_half_even_of_int)
  then have "real_of_int (2 ^ (double_precision - 1)) \<le> real_of_int (round_half_even (X / 2 ^ ?s))"
    by (simp only: of_int_le_iff)
  then have "real_of_int (2 ^ (double_precision - 1)) * 2 ^ ?s
               \<le> real_of_int (round_half_even (X / 2 ^ ?s)) * 2 ^ ?s"
    by (intro mult_right_mono) simp_all
  then show ?thesis unfolding split by (simp add: round_scaled_def power_add)
qed

lemma round_scaled_mono:
  assumes "0 \<le> X" and "X \<le> Y"
  shows "round_scaled X \<le> round_scaled Y"
proof (cases "double_shift X = double_shift Y")
  case True
  let ?s = "double_shift Y"
  from assms have "X / 2 ^ ?s \<le> Y / 2 ^ ?s" by (simp add: divide_right_mono)
  from round_half_even_mono [OF this]
  have "real_of_int (round_half_even (X / 2 ^ ?s)) \<le> real_of_int (round_half_even (Y / 2 ^ ?s))"
    by (simp only: of_int_le_iff)
  then have "real_of_int (round_half_even (X / 2 ^ ?s)) * 2 ^ ?s
               \<le> real_of_int (round_half_even (Y / 2 ^ ?s)) * 2 ^ ?s"
    by (intro mult_right_mono) simp_all
  with True show ?thesis by (simp add: round_scaled_def)
next
  case False
  with double_shift_mono [OF assms(2)] have less: "double_shift X < double_shift Y" by simp
  then have pos: "0 < double_shift Y" by simp
  from less have "double_precision + double_shift X \<le> double_precision + double_shift Y - 1"
    by simp
  then have "(2::real) ^ (double_precision + double_shift X)
               \<le> 2 ^ (double_precision + double_shift Y - 1)"
    by (intro power_increasing) simp_all
  with round_scaled_upper [OF assms(1)] round_scaled_lower [OF pos] show ?thesis by linarith
qed

lemma to_double_mono:
  assumes "0 \<le> x" and "x \<le> y"
  shows "to_double x \<le> to_double y"
proof -
  from assms have "0 \<le> x * 2 ^ double_scale" "x * 2 ^ double_scale \<le> y * 2 ^ double_scale"
    by (simp_all add: mult_right_mono)
  from round_scaled_mono [OF this]
  have "round_scaled (x * 2 ^ double_scale) / 2 ^ double_scale
          \<le> round_scaled (y * 2 ^ double_scale) / 2 ^ double_scale"
    by (simp add: divide_right_mono)
  with assms show ?thesis by (simp add: to_double_def)
qed

lemma round_scaled_exact:
  assumes "0 \<le> k" and "k < 2 ^ double_precision"
  shows "round_scaled (real_of_int (k * 2 ^ double_scale)) = real_of_int (k * 2 ^ double_scale)"
proof (cases "k = 0")
  case True
  then show ?thesis by (simp add: round_scaled_def round_half_even_def)
next
  case False
  with assms have pos: "0 < k" by simp
  define s where "s = double_shift (real_of_int (k * 2 ^ double_scale))"
  define r where "r = nat (int double_precision - bitlen k)"
  have len: "bitlen k \<le> int double_precision"
    using assms(2) by (simp add: bitlen_le_iff_power)
  have one: "1 \<le> bitlen k"
    using pos bitlen_eq_zero_iff [of k] bitlen_nonneg [of k] by (cases "bitlen k = 0") auto
  have pq: "int double_precision \<le> int double_scale"
    by (simp add: double_scale_def double_precision_def)
  have "bitlen (k * 2 ^ double_scale) = bitlen k + int double_scale"
    using pos by simp
  then have "s = nat (bitlen k + int double_scale - int double_precision)"
    by (simp only: s_def double_shift_def floor_of_int)
  with one pq have "int s = bitlen k + int double_scale - int double_precision"
    by simp
  with len have sum: "double_scale = s + r"
    unfolding r_def by linarith
  have X: "real_of_int (k * 2 ^ double_scale) = real_of_int (k * 2 ^ r) * 2 ^ s"
    by (simp add: sum power_add)
  have "real_of_int (k * 2 ^ r) * 2 ^ s / 2 ^ s = real_of_int (k * 2 ^ r)"
    by simp
  then have "real_of_int (k * 2 ^ double_scale) / 2 ^ s = real_of_int (k * 2 ^ r)"
    by (simp only: X)
  then have "round_half_even (real_of_int (k * 2 ^ double_scale) / 2 ^ s) = k * 2 ^ r"
    by (simp only: round_half_even_of_int)
  then have "round_scaled (real_of_int (k * 2 ^ double_scale)) = real_of_int (k * 2 ^ r) * 2 ^ s"
    by (simp only: round_scaled_def s_def [symmetric])
  then show ?thesis by (simp only: X)
qed

lemma to_double_of_int:
  assumes "0 \<le> k" and "k < 2 ^ 53"
  shows "to_double (real_of_int k) = real_of_int k"
proof -
  from assms(2) have "k < 2 ^ double_precision" by (simp add: double_precision_def)
  from round_scaled_exact [OF assms(1) this]
  have "round_scaled (real_of_int k * 2 ^ double_scale) = real_of_int k * 2 ^ double_scale"
    by simp
  with assms(1) show ?thesis by (simp add: to_double_def)
qed

lemma to_double_0: "to_double 0 = 0"
  using to_double_of_int [of 0] by simp

lemma to_double_500: "to_double 500 = 500"
  using to_double_of_int [of 500] by simp

lemma jitter_range:
  assumes "0 \<le> random" and "random < 1"
  shows "0 \<le> to_double (random * 500) \<and> to_double (random * 500) \<le> 500"
proof -
  from assms have a: "0 \<le> random * 500" and b: "random * 500 \<le> 500" by simp_all
  from to_double_mono [of 0 "random * 500"] a have "0 \<le> to_double (random * 500)"
    by (simp add: to_double_0)
  moreover from to_double_mono [OF a b] have "to_double (random * 500) \<le> 500"
    by (simp add: to_double_500)
  ultimately show ?thesis by blast
qed

lemma sum_range:
  assumes "0 \<le> k" and "k \<le> 30000" and "0 \<le> j" and "j \<le> 500"
  shows "real_of_int k \<le> to_double (real_of_int k + j)
         \<and> to_double (real_of_int k + j) \<le> real_of_int k + 500"
proof -
  have lo: "to_double (real_of_int k) = real_of_int k"
    using assms by (intro to_double_of_int) simp_all
  have hi: "to_double (real_of_int (k + 500)) = real_of_int (k + 500)"
    using assms by (intro to_double_of_int) simp_all
  from assms have "0 \<le> real_of_int k" "real_of_int k \<le> real_of_int k + j" by simp_all
  from to_double_mono [OF this] lo have "real_of_int k \<le> to_double (real_of_int k + j)"
    by simp
  moreover from assms have "0 \<le> real_of_int k + j" "real_of_int k + j \<le> real_of_int (k + 500)"
    by simp_all
  from to_double_mono [OF this] hi have "to_double (real_of_int k + j) \<le> real_of_int k + 500"
    by simp
  ultimately show ?thesis by blast
qed

lemma double_shift_at:
  assumes "2 ^ (52 + s) \<le> X" and "X < 2 ^ (53 + s)"
  shows "double_shift X = s"
proof -
  let ?n = "\<lfloor>X\<rfloor>"
  have "real_of_int (2 ^ (52 + s)) \<le> X" using assms(1) by simp
  then have lo: "2 ^ (52 + s) \<le> ?n" by (simp only: le_floor_iff)
  have "X < real_of_int (2 ^ (53 + s))" using assms(2) by simp
  then have hi: "?n < 2 ^ (53 + s)" by (simp only: floor_less_iff)
  define b where "b = ?n - 2 ^ (52 + s)"
  have "(2::int) ^ (53 + s) = 2 * 2 ^ (52 + s)" by (simp add: power_add)
  with lo hi have "0 \<le> b" "b < 2 ^ (52 + s)" by (simp_all add: b_def)
  from bitlen_twopow_add_eq [OF this] have "bitlen ?n = int (52 + s) + 1"
    by (simp add: b_def)
  then show ?thesis by (simp add: double_shift_def double_precision_def)
qed

lemma to_double_at:
  assumes "0 \<le> x" and "2 ^ (52 + s) \<le> x * 2 ^ 1074" and "x * 2 ^ 1074 < 2 ^ (53 + s)"
  shows "to_double x = real_of_int (round_half_even (x * 2 ^ 1074 / 2 ^ s)) * 2 ^ s / 2 ^ 1074"
  using assms(1) double_shift_at [OF assms(2,3)]
  by (simp add: to_double_def round_scaled_def double_scale_def)

lemma jitter_near_500: "to_double ((1 - 1 / 2 ^ 53) * 500) = 500 - 1 / 2 ^ 44"
  by (subst to_double_at [where s = 1030]) (simp_all add: round_half_even_def Let_def)

lemma sum_reaches_1500: "to_double (1000 + (500 - 1 / 2 ^ 44)) = 1500"
  by (subst to_double_at [where s = 1032]) (simp_all add: round_half_even_def Let_def)

subsection \<open>Reconnect backoff\<close>

lemma to_double_nat: "k < 2 ^ 53 \<Longrightarrow> to_double (real k) = real k"
  using to_double_of_int [of "int k"] by simp

lemma scheduleReconnect_delay:
  "reconnectDelay (fst (scheduleReconnect random s)) = min (to_double (reconnectDelay s * 2)) 30000"
  by (simp add: scheduleReconnect_def Let_def)

lemma doubling_capped:
  "min (min (k * 2) 30000 * 2 ^ n) 30000 = min (k * 2 ^ Suc n) (30000::nat)"
proof (cases "k * 2 \<le> 30000")
  case True
  then show ?thesis by (simp add: mult.assoc)
next
  case False
  then have big: "30000 < k * 2" by simp
  have "1 \<le> (2::nat) ^ n" by simp
  then have "30000 * 1 \<le> 30000 * (2::nat) ^ n" by (rule mult_le_mono2)
  then have one: "min (30000 * 2 ^ n) 30000 = (30000::nat)" by simp
  have grow: "k * 2 \<le> k * 2 * 2 ^ n" by simp
  have "k * 2 ^ Suc n = k * 2 * 2 ^ n" by simp
  with big grow have "30000 \<le> k * 2 ^ Suc n" by linarith
  then have two: "min (k * 2 ^ Suc n) 30000 = 30000" by simp
  from big have "min (k * 2) 30000 = 30000" by simp
  with one two show ?thesis by simp
qed

lemma after_closes_reconnectDelay:
  "reconnectDelay s = real k \<Longrightarrow> k \<le> 30000 \<Longrightarrow>
   reconnectDelay (after_closes randoms s) = real (min (k * 2 ^ length randoms) 30000)"
proof (induction randoms arbitrary: s k)
  case Nil
  then show ?case by simp
next
  case (Cons r rs)
  let ?s = "fst (scheduleReconnect r s)"
  from Cons.prems have "k * 2 < 2 ^ 53" by simp
  then have "to_double (real (k * 2)) = real (k * 2)" by (rule to_double_nat)
  with Cons.prems have "reconnectDelay ?s = min (real (k * 2)) 30000"
    by (simp add: scheduleReconnect_delay)
  then have d: "reconnectDelay ?s = real (min (k * 2) 30000)" by simp
  have "min (k * 2) 30000 \<le> (30000::nat)" by simp
  from Cons.IH [OF d this] doubling_capped [of k "length rs"] show ?case by simp
qed

lemma reconnect_delays_nth:
  "n < length randoms \<Longrightarrow>
   reconnect_delays randoms s ! n
     = snd (scheduleReconnect (randoms ! n) (after_closes (take n randoms) s))"
proof (induction randoms arbitrary: s n)
  case Nil
  then show ?case by simp
next
  case (Cons r rs)
  show ?case
  proof (cases n)
    case 0
    then show ?thesis by (simp split: prod.splits)
  next
    case (Suc m)
    with Cons.prems have "m < length rs" by simp
    from Cons.IH [OF this] Suc show ?thesis by (simp split: prod.splits)
  qed
qed

lemma backoff_base_nat: "backoff_base n = real (min (1000 * 2 ^ n) 30000)"
  by (simp add: backoff_base_def of_nat_min)

lemma backoff_base_small: "n < 5 \<Longrightarrow> backoff_base n = 1000 * 2 ^ n \<and> backoff_base n \<le> 16000"
proof -
  assume "n < 5"
  then have "n = 0 \<or> n = 1 \<or> n = 2 \<or> n = 3 \<or> n = 4" by arith
  then show ?thesis by (auto simp: backoff_base_def)
qed

lemma backoff_base_cap: "5 \<le> n \<Longrightarrow> backoff_base n = 30000"
proof -
  assume "5 \<le> n"
  then have "(2::real) ^ 5 \<le> 2 ^ n" by (intro power_increasing) simp_all
  then have "(32::real) \<le> 2 ^ n" by simp
  then show ?thesis by (simp add: backoff_base_def)
qed

text \<open>
  Claim C1, as amended. \<open>scheduleReconnect\<close> caps the sum of the current delay and the
  jitter, and computes in doubles: the delay of the \<open>n\<close>-th consecutive unexpected
  close after a successful open is \<open>min (base + jitter) 30000\<close> with both the product
  \<open>Math.random() * 500\<close> and the sum rounded to a double, where the base runs through
  \<open>1000, 2000, 4000, 8000, 16000, 30000, 30000, ...\<close> (the current delay, doubled and
  capped at 30000 after each close). So the delay lies between the base and the base plus
  500, both included, never exceeds 30000, and is exactly 30000 from the sixth close on.
\<close>

theorem backoff_delay_sequence:
  assumes rnd: "\<forall>r \<in> set randoms. 0 \<le> r \<and> r < 1" and n: "n < length randoms"
  shows "reconnectDelay (after_closes (take n randoms) (cli_on_open s)) = backoff_base n \<and>
         reconnect_delays randoms (cli_on_open s) ! n
           = min (to_double (backoff_base n + to_double (randoms ! n * 500))) 30000 \<and>
         backoff_base n \<le> reconnect_delays randoms (cli_on_open s) ! n \<and>
         reconnect_delays randoms (cli_on_open s) ! n \<le> backoff_base n + 500 \<and>
         reconnect_delays randoms (cli_on_open s) ! n \<le> 30000 \<and>
         (n < 5 \<longrightarrow> reconnect_delays randoms (cli_on_open s) ! n
                       = to_double (1000 * 2 ^ n + to_double (randoms ! n * 500))) \<and>
         (5 \<le> n \<longrightarrow> reconnect_delays randoms (cli_on_open s) ! n = 30000) \<and>
         reconnectDelay (after_closes (take (Suc n) randoms) (cli_on_open s))
           = backoff_base (Suc n)"
proof -
  let ?s0 = "cli_on_open s"
  let ?j = "to_double (randoms ! n * 500)"
  let ?delay = "reconnect_delays randoms ?s0 ! n"
  define k where "k = min (1000 * 2 ^ n) (30000::nat)"
  have base: "backoff_base n = real k" by (simp add: k_def backoff_base_nat)
  have k: "k \<le> 30000" by (simp add: k_def)
  have open_delay: "reconnectDelay ?s0 = real 1000" by (simp add: cli_on_open_def)
  have cur: "reconnectDelay (after_closes rs ?s0) = backoff_base (length rs)" for rs
    using after_closes_reconnectDelay [OF open_delay, of rs] by (simp add: backoff_base_nat)
  from n have len: "length (take n randoms) = n" by simp
  have before: "reconnectDelay (after_closes (take n randoms) ?s0) = backoff_base n"
    using cur [of "take n randoms"] len by simp
  from n have len': "length (take (Suc n) randoms) = Suc n" by simp
  have after: "reconnectDelay (after_closes (take (Suc n) randoms) ?s0) = backoff_base (Suc n)"
    using cur [of "take (Suc n) randoms"] len' by simp
  have delay: "?delay = min (to_double (backoff_base n + ?j)) 30000"
    using reconnect_delays_nth [OF n, of ?s0] before
    by (simp add: scheduleReconnect_def Let_def)
  from rnd n have "0 \<le> randoms ! n" "randoms ! n < 1" by simp_all
  from jitter_range [OF this] have j: "0 \<le> ?j" "?j \<le> 500" by simp_all
  from sum_range [of "int k" ?j] k j
  have sum: "backoff_base n \<le> to_double (backoff_base n + ?j)"
    "to_double (backoff_base n + ?j) \<le> backoff_base n + 500"
    by (simp_all add: base)
  have base_le: "backoff_base n \<le> 30000" by (simp add: backoff_base_def)
  have lower: "backoff_base n \<le> ?delay" using sum base_le by (simp add: delay)
  have upper: "?delay \<le> backoff_base n + 500" using sum by (simp add: delay min_def)
  have cap: "?delay \<le> 30000" by (simp add: delay)
  have small: "?delay = to_double (1000 * 2 ^ n + ?j)" if "n < 5"
  proof -
    from backoff_base_small [OF that] sum(2)
    have "to_double (backoff_base n + ?j) \<le> 30000" by linarith
    then show ?thesis using backoff_base_small [OF that] by (simp add: delay)
  qed
  have capped: "?delay = 30000" if "5 \<le> n"
    using backoff_base_cap [OF that] sum(1) by (simp add: delay)
  from before delay lower upper cap small capped after show ?thesis by blast
qed

theorem backoff_delay_sequence_witness:
  "list_all (\<lambda>r. 0 \<le> r \<and> r < 1) [0, 1/2, 1/4, 0, 3/4, 1/2, 1/10 :: real] \<and>
   reconnect_delays [0, 1/2, 1/4, 0, 3/4, 1/2, 1/10] (cli_on_open cli_init) ! 4 = 16375 \<and>
   reconnect_delays [0, 1/2, 1/4, 0, 3/4, 1/2, 1/10] (cli_on_open cli_init) ! 5 = 30000"
proof -
  let ?rs = "[0, 1/2, 1/4, 0, 3/4, 1/2, 1/10 :: real]"
  have rnd: "\<forall>r \<in> set ?rs. 0 \<le> r \<and> r < 1" by simp
  have n4: "4 < length ?rs" and n5: "5 < length ?rs" by simp_all
  have j: "to_double 375 = 375" using to_double_of_int [of 375] by simp
  have d: "to_double 16375 = 16375" using to_double_of_int [of 16375] by simp
  have "reconnect_delays ?rs (cli_on_open cli_init) ! 4 = 16375"
    using backoff_delay_sequence [OF rnd n4, of cli_init]
    by (simp add: j d del: reconnect_delays.simps after_closes.simps)
  moreover
  have "reconnect_delays ?rs (cli_on_open cli_init) ! 5 = 30000"
    using backoff_delay_sequence [OF rnd n5, of cli_init]
    by (simp del: reconnect_delays.simps after_closes.simps)
  ultimately show ?thesis by simp
qed

theorem backoff_delay_counterexample:
  "reconnectDelay (after_closes [0, 0, 0, 0, 0] (cli_on_open cli_init)) = 30000 \<and>
   snd (scheduleReconnect (1/2) (after_closes [0, 0, 0, 0, 0] (cli_on_open cli_init))) = 30000 \<and>
   spec_delay (reconnectDelay (after_closes [0, 0, 0, 0, 0] (cli_on_open cli_init))) (1/2 * 500)
     = 30250 \<and>
   (0::real) \<le> 1 - 1 / 2 ^ 53 \<and> (1::real) - 1 / 2 ^ 53 < 1 \<and>
   reconnectDelay (cli_on_open cli_init) = 1000 \<and>
   snd (scheduleReconnect (1 - 1 / 2 ^ 53) (cli_on_open cli_init)) = 1000 + 500"
proof -
  have "reconnectDelay (cli_on_open cli_init) = real 1000" by (simp add: cli_on_open_def)
  from after_closes_reconnectDelay [OF this, of "[0, 0, 0, 0, 0]"]
  have cur: "reconnectDelay (after_closes [0, 0, 0, 0, 0] (cli_on_open cli_init)) = 30000"
    by simp
  have j: "to_double 250 = 250" using to_double_of_int [of 250] by simp
  have d: "to_double 30250 = 30250" using to_double_of_int [of 30250] by simp
  have capped: "snd (scheduleReconnect (1/2) (after_closes [0, 0, 0, 0, 0] (cli_on_open cli_init)))
                  = 30000"
    by (simp add: scheduleReconnect_def Let_def cur j d del: after_closes.simps)
  have fresh: "reconnectDelay (cli_on_open cli_init) = 1000" by (simp add: cli_on_open_def)
  have "snd (scheduleReconnect random s)
          = min (to_double (reconnectDelay s + to_double (random * 500))) 30000" for random s
    by (simp add: scheduleReconnect_def Let_def)
  then have "snd (scheduleReconnect (1 - 1 / 2 ^ 53) (cli_on_open cli_init))
          = min (to_double (1000 + to_double ((1 - 1 / 2 ^ 53) * 500))) 30000"
    by (simp only: fresh)
  also have "\<dots> = min 1500 30000"
    by (simp only: jitter_near_500 sum_reaches_1500)
  finally have rounded: "snd (scheduleReconnect (1 - 1 / 2 ^ 53) (cli_on_open cli_init)) = 1000 + 500"
    by simp
  have spec: "spec_delay (reconnectDelay (after_closes [0, 0, 0, 0, 0] (cli_on_open cli_init)))
                (1/2 * 500) = 30250"
    by (simp add: cur spec_delay_def del: after_closes.simps)
  have unit: "(0::real) \<le> 1 - 1 / 2 ^ 53" "(1::real) - 1 / 2 ^ 53 < 1" by simp_all
  from cur capped spec unit fresh rounded show ?thesis by (intro conjI)
qed

subsection \<open>Outbound headers\<close>

text \<open>
  Claim C3. The outbound headers are not the request's headers with the host header
  overwritten: the code writes the key \<open>host\<close> only. For a request whose header
  object has the keys \<open>host\<close> and \<open>Host\<close>, the headers handed to
  \<open>transport.request\<close> are \<open>host\<close> with the target, then \<open>Host\<close> with the
  value of the request, then \<open>content-length\<close>, in both copies (for any
  \<open>toLowerCase\<close> that lowers these two names as JavaScript does).
\<close>

theorem outbound_host_kept:
  assumes "toLowerCase ''host'' = ''host''" and "toLowerCase ''Host'' = ''host''"
  shows "opt_headers (call_options (api_local_call toLowerCase ''localhost'' 3000 two_hosts_request))
           = [(''host'', HString ''localhost:3000''), (''Host'', HString ''b.example''),
              (''content-length'', HNumber 0)] \<and>
         opt_headers (call_options (cli_local_call toLowerCase ''localhost'' 3000 two_hosts_request))
           = [(''host'', HString ''localhost:3000''), (''Host'', HString ''b.example''),
              (''content-length'', HNumber 0)]"
proof -
  have port: "show_nat 3000 = ''3000''" by code_simp
  have body: "Buffer_from_base64 [] = []" by code_simp
  have hop: "''host'' \<notin> set hop_by_hop" by (simp add: hop_by_hop_def)
  have "strip_headers toLowerCase (req_headers two_hosts_request)
          = [(''host'', HString ''a.example''), (''Host'', HString ''b.example'')]"
    using assms hop by (simp add: strip_headers_def two_hosts_request_def object_set_def)
  then have "opt_headers (request_options toLowerCase ''localhost'' 3000 two_hosts_request)
          = [(''host'', HString ''localhost:3000''), (''Host'', HString ''b.example''),
             (''content-length'', HNumber 0)]"
    by (simp add: request_options_def Let_def object_set_def host_header_def port body
        two_hosts_request_def)
  then show ?thesis by (simp add: api_local_call_def cli_local_call_def Let_def)
qed

theorem outbound_host_kept_witness:
  "toLowerCase_ascii ''host'' = ''host'' \<and> toLowerCase_ascii ''Host'' = ''host'' \<and>
   map_of (opt_headers (call_options
             (api_local_call toLowerCase_ascii ''localhost'' 3000 two_hosts_request))) ''Host''
     = Some (HString ''b.example'')"
proof -
  have h1: "toLowerCase_ascii ''host'' = ''host''" by code_simp
  have h2: "toLowerCase_ascii ''Host'' = ''host''" by code_simp
  from outbound_host_kept [OF h1 h2] h1 h2 show ?thesis by simp
qed

subsection \<open>The promise of a forward\<close>

lemma resolve_cases: "resolve v p = p \<or> (p = Pending \<and> resolve v p = Fulfilled v)"
  by (cases p) (simp_all add: resolve_def)

lemma touch_promise: "fw_promise (touch t run) = fw_promise run"
  by (simp add: touch_def split: option.splits)

lemma deliver_promise:
  "fw_promise (deliver respond t ev run) = fw_promise run
   \<or> (fw_promise run = Pending \<and> (\<exists>cb. fw_promise (deliver respond t ev run) = Fulfilled (respond cb)))"
proof (cases ev)
  case End
  then show ?thesis
    using resolve_cases [of _ "fw_promise run"]
    by (auto simp: touch_promise split: option.splits)
next
  case ResponseError
  then show ?thesis
    using resolve_cases [of "respond OnResponseError" "fw_promise run"]
    by (auto simp: touch_promise split: option.splits)
next
  case RequestError
  then show ?thesis
    using resolve_cases [of "respond OnRequestError" "fw_promise run"] by auto
qed (simp_all add: touch_promise split: option.splits)

lemma on_timeout_promise:
  "fw_promise (on_timeout respond run) = fw_promise run
   \<or> (fw_promise run = Pending \<and> fw_promise (on_timeout respond run) = Fulfilled (respond OnTimeout))"
  using resolve_cases [of "respond OnTimeout" "fw_promise run"] by (simp add: on_timeout_def)

lemma forward_step_promise:
  "fw_promise (forward_step respond timeout tev run) = fw_promise run
   \<or> (fw_promise run = Pending
        \<and> (\<exists>cb. fw_promise (forward_step respond timeout tev run) = Fulfilled (respond cb)))"
  using deliver_promise [of respond "fst tev" "snd tev" run] on_timeout_promise [of respond run]
  by (auto simp: forward_step_def)

lemma forward_fold_promise:
  "fw_promise (fold (forward_step respond timeout) evs run) = fw_promise run
   \<or> (fw_promise run = Pending
        \<and> (\<exists>cb. fw_promise (fold (forward_step respond timeout) evs run) = Fulfilled (respond cb)))"
proof (induction evs arbitrary: run)
  case Nil
  then show ?case by simp
next
  case (Cons tev evs)
  from Cons.IH [of "forward_step respond timeout tev run"]
    forward_step_promise [of respond timeout tev run]
  show ?case by auto
qed

lemma forward_finish_promise:
  "fw_promise (forward_finish respond timeout now run) = fw_promise run
   \<or> (fw_promise run = Pending
        \<and> (\<exists>cb. fw_promise (forward_finish respond timeout now run) = Fulfilled (respond cb)))"
  using on_timeout_promise [of respond run] by (auto simp: forward_finish_def)

lemma forward_from_promise:
  "fw_promise (forward_finish respond timeout now
                 (fold (forward_step respond timeout) evs (forward_start p))) = p
   \<or> (p = Pending
        \<and> (\<exists>cb. fw_promise (forward_finish respond timeout now
                    (fold (forward_step respond timeout) evs (forward_start p)))
                  = Fulfilled (respond cb)))"
proof -
  have start: "fw_promise (forward_start p) = p" by (simp add: forward_start_def)
  from forward_fold_promise [of respond timeout evs "forward_start p"]
    forward_finish_promise [of respond timeout now
      "fold (forward_step respond timeout) evs (forward_start p)"]
  show ?thesis unfolding start by auto
qed





subsection \<open>A throw in the executor\<close>

text \<open>
  Claim C2. \<open>forwardToLocal\<close> is not total. When \<open>transport.request\<close> throws in
  the promise executor, as Node does for the port 70000, the promise of the library
  module is rejected with the error; when \<open>localReq.write\<close> or \<open>localReq.end\<close>
  throws, the promise of either copy is rejected, whatever happens on the socket
  afterwards. No response is produced.
\<close>

theorem forward_throw_rejects:
  "fw_promise (api_forwardToLocal ''localhost'' 70000 (sample_request ''r01'')
                 (RequestThrows ''ERR_SOCKET_BAD_PORT'') evs now)
     = Rejected ''ERR_SOCKET_BAD_PORT'' \<and>
   fw_promise (api_forwardToLocal localHost localPort request (WriteThrows e) evs now)
     = Rejected e \<and>
   fw_promise (cli_forwardToLocal localHost localPort request (WriteThrows e) evs now)
     = Rejected e"
proof -
  have "fw_promise (forward_until respond timeout (WriteThrows e) evs now) = Rejected e"
    for respond timeout
    using forward_from_promise [of respond timeout now "filter (\<lambda>tev. fst tev \<le> now) evs" "Rejected e"]
    by (auto simp: forward_until_def)
  then show ?thesis
    by (simp add: api_forwardToLocal_def cli_forwardToLocal_def forward_until_def forward_start_def)
qed

subsection \<open>The timeout\<close>












subsection \<open>The message handlers\<close>




text \<open>
  Claim C6. An \<open>error\<close> message of the relay before registration clears the connect
  timeout, closes the channel and rejects the promise of \<open>tunnrl\<close> with the message
  \<open>tunnrl: \<close> followed by the relay's text; the close of the channel that follows
  starts no new connection. In the command line client the same message sets
  \<open>shuttingDown\<close>, closes the socket and exits with status 1, after which the close
  handler, the reconnect timer and \<open>connect\<close> do nothing.
\<close>

theorem relay_error_fatal:
  assumes "\<not> resolved s" and "tunnel_promise s = Pending"
    and "get_prop msg ''type'' = Some (JStr ''error'')"
    and "get_prop msg ''message'' = Some (JStr reason)"
  shows "api_on_message s (Some msg)
           = Inr (s\<lparr>connectTimeout := False, tunnel_promise := Rejected (''tunnrl: '' @ reason)\<rparr>,
                  [ClearTimeout, WsClose, Reject (''tunnrl: '' @ reason)]) \<and>
         sublist reason (''tunnrl: '' @ reason) \<and>
         api_on_close (s\<lparr>connectTimeout := False, tunnel_promise := Rejected (''tunnrl: '' @ reason)\<rparr>)
           = (s\<lparr>connectTimeout := False, tunnel_promise := Rejected (''tunnrl: '' @ reason)\<rparr>,
              [ClearTimeout, Reject ''tunnrl: connection closed before tunnel was established'']) \<and>
         cli_on_message env c (Some msg)
           = Inr (c\<lparr>shuttingDown := True\<rparr>,
                  [Log, Log] @ (case ws c of None \<Rightarrow> [] | Some w \<Rightarrow> [Close w]) @ [Exit 1]) \<and>
         cli_on_close random (c\<lparr>shuttingDown := True\<rparr>) = (c\<lparr>shuttingDown := True\<rparr>, []) \<and>
         cli_on_reconnect_timer sock (c\<lparr>shuttingDown := True\<rparr>) = (c\<lparr>shuttingDown := True\<rparr>, []) \<and>
         cli_connect sock (c\<lparr>shuttingDown := True\<rparr>) = (c\<lparr>shuttingDown := True\<rparr>, [])"
proof -
  from assms(3) have nonnull: "msg \<noteq> JNull" by auto
  have api: "api_on_message s (Some msg)
           = Inr (s\<lparr>connectTimeout := False, tunnel_promise := Rejected (''tunnrl: '' @ reason)\<rparr>,
                  [ClearTimeout, WsClose, Reject (''tunnrl: '' @ reason)])"
    using assms nonnull
    by (cases msg) (simp_all add: api_on_message_def js_String_def reject_def Let_def)
  have sub: "sublist reason (''tunnrl: '' @ reason)"
    by (rule sublist_append_leftI)
  have closed: "api_on_close (s\<lparr>connectTimeout := False, tunnel_promise := Rejected (''tunnrl: '' @ reason)\<rparr>)
           = (s\<lparr>connectTimeout := False, tunnel_promise := Rejected (''tunnrl: '' @ reason)\<rparr>,
              [ClearTimeout, Reject ''tunnrl: connection closed before tunnel was established''])"
    using assms(1) by (simp add: api_on_close_def reject_def Let_def)
  have cli: "cli_on_message env c (Some msg)
           = Inr (c\<lparr>shuttingDown := True\<rparr>,
                  [Log, Log] @ (case ws c of None \<Rightarrow> [] | Some w \<Rightarrow> [Close w]) @ [Exit 1])"
    using assms(3) nonnull by (cases msg) (simp_all add: cli_on_message_def)
  have after: "cli_on_close random (c\<lparr>shuttingDown := True\<rparr>) = (c\<lparr>shuttingDown := True\<rparr>, [])"
    "cli_on_reconnect_timer sock (c\<lparr>shuttingDown := True\<rparr>) = (c\<lparr>shuttingDown := True\<rparr>, [])"
    "cli_connect sock (c\<lparr>shuttingDown := True\<rparr>) = (c\<lparr>shuttingDown := True\<rparr>, [])"
    by (simp_all add: cli_on_close_def cli_on_reconnect_timer_def cli_connect_def)
  from api sub closed cli after show ?thesis by (intro conjI)
qed

theorem relay_error_fatal_witness:
  "\<not> resolved api_init \<and> tunnel_promise api_init = Pending \<and>
   get_prop quota_frame ''type'' = Some (JStr ''error'') \<and>
   get_prop quota_frame ''message'' = Some (JStr ''quota exceeded'') \<and>
   api_on_message api_init (Some quota_frame)
     = Inr (api_init\<lparr>connectTimeout := False,
                    tunnel_promise := Rejected ''tunnrl: quota exceeded''\<rparr>,
            [ClearTimeout, WsClose, Reject ''tunnrl: quota exceeded'']) \<and>
   sublist ''quota exceeded'' ''tunnrl: quota exceeded'' \<and>
   cli_on_message sample_env (cli_init\<lparr>ws := Some 1\<rparr>) (Some quota_frame)
     = Inr (cli_init\<lparr>ws := Some 1, shuttingDown := True\<rparr>, [Log, Log, Close 1, Exit 1]) \<and>
   cli_on_close (1/2) (cli_init\<lparr>ws := Some 1, shuttingDown := True\<rparr>)
     = (cli_init\<lparr>ws := Some 1, shuttingDown := True\<rparr>, [])"
proof -
  have h: "\<not> resolved api_init" "tunnel_promise api_init = Pending"
    "get_prop quota_frame ''type'' = Some (JStr ''error'')"
    "get_prop quota_frame ''message'' = Some (JStr ''quota exceeded'')"
    by (simp_all add: api_init_def quota_frame_def)
  from relay_error_fatal [OF h, of sample_env "cli_init\<lparr>ws := Some 1\<rparr>" "1/2" 2] h
  show ?thesis by simp
qed

subsection \<open>The response of a forward on the control channel\<close>

lemma api_response_send_guard:
  "(WsSend r \<in> set (api_on_forwarded rs request response duration))
      = (rs = OPEN \<and> r = response)"
  by (auto simp: api_on_forwarded_def)

text \<open>
  Claim C8. The command line client does not drop the response of a forward whose
  channel has closed. A request arrives on socket 1; the socket closes while the forward
  runs, the reconnect timer opens socket 2, and socket 2 is open when the forward
  completes: the response is sent on socket 2. The handler tests and uses the variable
  \<open>ws\<close>, which by then names the new socket.
\<close>

theorem response_sent_on_new_socket:
  "cli_on_message sample_env (cli_init\<lparr>ws := Some 1\<rparr>) (Some request_frame)
     = Inr (cli_init\<lparr>ws := Some 1\<rparr>, [Forward request_frame]) \<and>
   ws (cli_on_open (fst (cli_on_reconnect_timer 2
         (fst (cli_on_close (1/2) (cli_init\<lparr>ws := Some 1\<rparr>)))))) = Some 2 \<and>
   readyState reconnected_env 1 = CLOSED \<and>
   snd (cli_on_forwarded reconnected_env
          (cli_on_open (fst (cli_on_reconnect_timer 2
             (fst (cli_on_close (1/2) (cli_init\<lparr>ws := Some 1\<rparr>))))))
          (sample_request ''r01'') sample_response)
     = [Log, Send 2 sample_response]"
  by (simp add: cli_on_message_def request_frame_def cli_on_forwarded_def cli_on_open_def
      cli_on_reconnect_timer_def cli_connect_def cli_on_close_def scheduleReconnect_def
      cli_init_def reconnected_env_def Let_def)

end
